theory Spec2Isabelle
  imports Complex_Main
begin

text \<open>
  A model of the reward distribution of Token Flight: the class
  \<^verbatim>\<open>BlockHeightCollector\<close>, which finds the block heights to pay for in the paginated
  transaction history of a wallet, and the function \<^verbatim>\<open>generate_distribution\<close>, which
  splits a total amount among the miners by their participation. What the code prints is
  not modelled.
\<close>

section \<open>Block height collection (class BlockHeightCollector)\<close>

subsection \<open>Data model\<close>

text \<open>
  Exceptions that the modelled code can raise. \<open>RequestError\<close> stands for every failure of
  one page fetch: the connection error of \<^verbatim>\<open>requests.get\<close>, the HTTP error of
  \<^verbatim>\<open>raise_for_status\<close>, a body that is not JSON or has no \<^verbatim>\<open>"items"\<close>.
\<close>

datatype error = RequestError | KeyError | ZeroDivisionError | ValueError

text \<open>
  One transaction of the explorer's answer, reduced to what the collector reads:
  \<^verbatim>\<open>tx["inclusionHeight"]\<close> (absent: \<open>None\<close>) and, for every element of
  \<^verbatim>\<open>tx.get("inputs", [])\<close>, the result of \<^verbatim>\<open>input_data.get("address")\<close>.
  A transaction without the key \<^verbatim>\<open>"inputs"\<close> has \<open>inputs = []\<close>, as the default does.
\<close>

record tx =
  inclusionHeight :: "int option"
  inputs :: "string option list"

text \<open>
  The query parameters of one request for a page of transactions; \<open>concise = False\<close>
  stands for a request without that parameter.
\<close>

record params =
  offset :: nat
  limit :: nat
  concise :: bool

text \<open>
  The explorer is an external service: a request is answered with a page or fails, and the
  service may change while it is used. It is a function on a state \<open>'w\<close> of the world.
\<close>

type_synonym 'w api = "params \<Rightarrow> 'w \<Rightarrow> (error + tx list) \<times> 'w"

subsection \<open>get\_latest\_outgoing\_block\<close>

definition is_outgoing :: "string \<Rightarrow> tx \<Rightarrow> bool" where
  "is_outgoing wallet_address t = list_ex (\<lambda>a. a = Some wallet_address) (inputs t)"

text \<open>
  One request with offset 0 and limit 50; the first transaction of the page with the wallet
  among its inputs gives the height. Every exception of the body (the failed request, the
  missing key \<^verbatim>\<open>"inclusionHeight"\<close>) is caught and answered with 0.
\<close>

definition get_latest_outgoing_block :: "'w api \<Rightarrow> string \<Rightarrow> 'w \<Rightarrow> (error + int) \<times> 'w" where
  "get_latest_outgoing_block api wallet_address w =
     (case api \<lparr>offset = 0, limit = 50, concise = False\<rparr> w of
        (Inl e, w') \<Rightarrow> (Inr 0, w')
      | (Inr items, w') \<Rightarrow>
          (case find (is_outgoing wallet_address) items of
             None \<Rightarrow> (Inr 0, w')
           | Some t \<Rightarrow>
               (case inclusionHeight t of
                  None \<Rightarrow> (Inr 0, w')
                | Some h \<Rightarrow> (Inr h, w'))))"

subsection \<open>get\_blocks\_since\_last\_outgoing\<close>

text \<open>
  The inner \<^verbatim>\<open>for\<close> loop over one page: \<^verbatim>\<open>tx.get("inclusionHeight", 0) > min_block\<close>
  guards \<^verbatim>\<open>all_blocks.add(tx["inclusionHeight"])\<close>, which raises when the key is absent.
\<close>

fun add_heights :: "int \<Rightarrow> tx list \<Rightarrow> int set \<Rightarrow> error + int set" where
  "add_heights min_block [] all_blocks = Inr all_blocks"
| "add_heights min_block (t # ts) all_blocks =
     (if min_block < (case inclusionHeight t of None \<Rightarrow> 0 | Some h \<Rightarrow> h)
      then (case inclusionHeight t of
              None \<Rightarrow> Inl KeyError
            | Some h \<Rightarrow> add_heights min_block ts (insert h all_blocks))
      else add_heights min_block ts all_blocks)"

text \<open>
  The \<^verbatim>\<open>while True\<close> loop. Nothing bounds the number of pages an arbitrary service
  hands out, so the loop is a partial function: \<open>None\<close> is the run that never ends.
  \<open>page_limit\<close> is the local variable \<^verbatim>\<open>limit\<close>.
\<close>

partial_function (option) collect_pages ::
  "'w api \<Rightarrow> nat \<Rightarrow> int \<Rightarrow> nat \<Rightarrow> int set \<Rightarrow> 'w \<Rightarrow> ((error + int set) \<times> 'w) option" where
  "collect_pages api page_limit min_block current_offset all_blocks w =
     (case api \<lparr>offset = current_offset, limit = page_limit, concise = True\<rparr> w of
        (Inl e, w') \<Rightarrow> Some (Inl e, w')
      | (Inr items, w') \<Rightarrow>
          if items = [] then Some (Inr all_blocks, w')
          else (case add_heights min_block items all_blocks of
                  Inl e \<Rightarrow> Some (Inl e, w')
                | Inr all_blocks' \<Rightarrow>
                    if length items < page_limit then Some (Inr all_blocks', w')
                    else collect_pages api page_limit min_block (current_offset + page_limit) all_blocks' w'))"

declare collect_pages.simps [code]

text \<open>
  A page fetch fails during the scan: from \<open>current_offset\<close> on the service hands out
  the pages \<open>pages\<close>, each of which lets the loop go on (it is not empty and not shorter
  than the limit), and the request that follows fails with \<open>e\<close> and leaves the world
  \<open>w'\<close>. With \<open>pages = []\<close> it is the first request of the loop that fails.
\<close>

fun failed_fetch_after ::
  "'w api \<Rightarrow> nat \<Rightarrow> nat \<Rightarrow> 'w \<Rightarrow> tx list list \<Rightarrow> error \<Rightarrow> 'w \<Rightarrow> bool" where
  "failed_fetch_after api page_limit current_offset w [] e w' =
     (api \<lparr>offset = current_offset, limit = page_limit, concise = True\<rparr> w = (Inl e, w'))"
| "failed_fetch_after api page_limit current_offset w (page # pages) e w' =
     (case api \<lparr>offset = current_offset, limit = page_limit, concise = True\<rparr> w of
        (Inl e1, w1) \<Rightarrow> False
      | (Inr items, w1) \<Rightarrow>
          items = page \<and> items \<noteq> [] \<and> \<not> length items < page_limit \<and>
          failed_fetch_after api page_limit (current_offset + page_limit) w1 pages e w')"

text \<open>
  The body of the \<^verbatim>\<open>try\<close> block from the test of \<^verbatim>\<open>min_block\<close> on, with the
  values of \<^verbatim>\<open>limit\<close> and \<^verbatim>\<open>min_block\<close> as arguments: the method below calls it
  with the two constants of the code, the statements on other page sizes and reference
  heights are about it.
\<close>

definition scan_blocks :: "'w api \<Rightarrow> nat \<Rightarrow> int \<Rightarrow> 'w \<Rightarrow> ((error + int list) \<times> 'w) option" where
  "scan_blocks api page_limit min_block w =
     (if min_block = 0 then Some (Inr [], w)
      else (case collect_pages api page_limit min_block 0 {} w of
              None \<Rightarrow> None
            | Some (Inl e, w') \<Rightarrow> Some (Inl e, w')
            | Some (Inr all_blocks, w') \<Rightarrow> Some (Inr (sorted_list_of_set all_blocks), w')))"

text \<open>
  The method: the latest outgoing height is fetched and then overwritten by the constant
  1449260; the limit is 100; \<^verbatim>\<open>except Exception\<close> turns every exception into \<open>[]\<close>.
\<close>

definition get_blocks_since_last_outgoing ::
  "'w api \<Rightarrow> string \<Rightarrow> 'w \<Rightarrow> ((error + int list) \<times> 'w) option" where
  "get_blocks_since_last_outgoing api wallet_address w =
     (case get_latest_outgoing_block api wallet_address w of
        (Inl e, w1) \<Rightarrow> Some (Inr [], w1)
      | (Inr latest, w1) \<Rightarrow>
          (let min_block = latest;
               min_block = 1449260
           in case scan_blocks api 100 min_block w1 of
                None \<Rightarrow> None
              | Some (Inl e, w2) \<Rightarrow> Some (Inr [], w2)
              | Some (Inr blocks, w2) \<Rightarrow> Some (Inr blocks, w2)))"

subsection \<open>An explorer that serves a fixed history\<close>

text \<open>
  The ordered history of the wallet, newest first, and the requests received so far. A
  request is answered with the records from \<open>offset\<close> on, at most \<open>limit\<close> of them.
\<close>

record world =
  history :: "tx list"
  requests :: "params list"

definition explorer :: "world api" where
  "explorer p w =
     (Inr (take (limit p) (drop (offset p) (history w))), w\<lparr>requests := requests w @ [p]\<rparr>)"

text \<open>A service that is down: every request fails.\<close>

definition unreachable :: "world api" where
  "unreachable p w = (Inl RequestError, w\<lparr>requests := requests w @ [p]\<rparr>)"

text \<open>
  A service that answers the first \<open>n\<close> requests as \<open>explorer\<close> does and fails from
  then on.
\<close>

definition failing_after :: "nat \<Rightarrow> world api" where
  "failing_after n p w = (if length (requests w) < n then explorer p w else unreachable p w)"

text \<open>
  A service that fails the requests whose numbers, counted from 0, are in \<open>ns\<close>, and
  answers the others as \<open>explorer\<close> does.
\<close>

definition failing_on :: "nat list \<Rightarrow> world api" where
  "failing_on ns p w =
     (if List.member ns (length (requests w)) then unreachable p w else explorer p w)"

text \<open>Transactions for the examples: not yet in a block, and in the block of height \<open>h\<close>.\<close>

definition pending :: tx where
  "pending = \<lparr>inclusionHeight = None, inputs = []\<rparr>"

definition included :: "int \<Rightarrow> tx" where
  "included h = \<lparr>inclusionHeight = Some h, inputs = []\<rparr>"

definition spent_by :: "string \<Rightarrow> int \<Rightarrow> tx" where
  "spent_by wallet_address h = \<lparr>inclusionHeight = Some h, inputs = [Some wallet_address]\<rparr>"

text \<open>
  The feed of the repository's note on the transaction limit: 54 records, the ones that
  qualify at positions 51 to 54.
\<close>

definition feed54 :: "tx list" where
  "feed54 = replicate 50 pending @ map included [1510299, 1510211, 1509996, 1509846]"

section \<open>Allocation (generate\_distribution)\<close>

subsection \<open>Data model\<close>

text \<open>
  Amounts and percentages are Python numbers. The model is written over any linearly
  ordered type \<open>'a\<close> with the operations \<open>0\<close>, \<open>+\<close>, \<open>-\<close>, \<open>*\<close>, \<open>/\<close>, of which
  nothing is assumed, and takes \<^verbatim>\<open>round(x, 8)\<close> as the parameter \<open>round8\<close>: what is proved
  holds whatever the arithmetic rounds to. Only the order is that of numbers: a NaN,
  which compares false with everything, is outside the model (an amount that passes the
  test \<^verbatim>\<open>amount > 0\<close> is none).
\<close>

record 'a miner =
  miner_address :: string
  avg_participation_percentage :: 'a

record 'a recipient =
  address :: string
  amount :: 'a

record 'a distribution =
  token_name :: string
  recipients :: "'a recipient list"

subsection \<open>Python's operators\<close>

text \<open>\<^verbatim>\<open>sum\<close> adds from the left, starting at 0; \<^verbatim>\<open>/\<close> raises on a zero divisor.\<close>

definition py_sum :: "'a::{zero,plus} list \<Rightarrow> 'a" where
  "py_sum xs = foldl (+) 0 xs"

definition py_div :: "'a::{zero,inverse} \<Rightarrow> 'a \<Rightarrow> error + 'a" where
  "py_div a b = (if b = 0 then Inl ZeroDivisionError else Inr (a / b))"

text \<open>
  \<^verbatim>\<open>max(recipients, key=lambda x: x['amount'])\<close> keeps the first element and replaces it
  only by a strictly larger one; on an empty list it raises. The result is the position
  of the element, since the element is then changed in place.
\<close>

fun argmax_amount :: "('a::linorder) recipient list \<Rightarrow> nat \<Rightarrow> nat \<Rightarrow> 'a \<Rightarrow> nat" where
  "argmax_amount [] i best best_amount = best"
| "argmax_amount (r # rs) i best best_amount =
     (if best_amount < amount r then argmax_amount rs (Suc i) i (amount r)
      else argmax_amount rs (Suc i) best best_amount)"

definition py_max_amount :: "('a::linorder) recipient list \<Rightarrow> error + nat" where
  "py_max_amount rs =
     (case rs of [] \<Rightarrow> Inl ValueError | r # rest \<Rightarrow> Inr (argmax_amount rest 1 0 (amount r)))"

subsection \<open>generate\_distribution\<close>

text \<open>
  The first pass: the loop over the miners, with the two accumulators. \<open>rs\<close> is the list
  \<^verbatim>\<open>recipients\<close> and \<open>amt\<close> the local \<^verbatim>\<open>amount\<close>.
\<close>

fun first_pass ::
  "('a \<Rightarrow> 'a) \<Rightarrow> 'a \<Rightarrow> 'a \<Rightarrow> ('a::{linorder,zero,plus,times,inverse}) miner list \<Rightarrow>
   'a recipient list \<Rightarrow> 'a \<Rightarrow> error + ('a recipient list \<times> 'a)" where
  "first_pass round8 total_amount total_percentage [] rs running_total =
     Inr (rs, running_total)"
| "first_pass round8 total_amount total_percentage (m # ms) rs running_total =
     (case py_div (avg_participation_percentage m) total_percentage of
        Inl e \<Rightarrow> Inl e
      | Inr normalized_percentage \<Rightarrow>
          (let amt = round8 (total_amount * normalized_percentage)
           in if 0 < amt
              then first_pass round8 total_amount total_percentage ms
                     (rs @ [\<lparr>address = miner_address m, amount = amt\<rparr>]) (running_total + amt)
              else first_pass round8 total_amount total_percentage ms rs running_total))"

text \<open>
  The adjustment for the rounding discrepancy. \<^verbatim>\<open>largest_recipient\<close> is an element of the
  list \<^verbatim>\<open>recipients\<close>, so the assignment to its amount changes the list at its position.
\<close>

definition adjust ::
  "('a \<Rightarrow> 'a) \<Rightarrow> 'a \<Rightarrow> ('a::{linorder,zero,plus,minus}) recipient list \<Rightarrow> 'a \<Rightarrow>
   error + 'a recipient list" where
  "adjust round8 total_amount rs running_total =
     (if rs \<noteq> [] then
        (let discrepancy = round8 (total_amount - running_total)
         in if discrepancy \<noteq> 0 then
              (case py_max_amount rs of
                 Inl e \<Rightarrow> Inl e
               | Inr i \<Rightarrow>
                   (let largest_recipient = rs ! i
                    in Inr (rs[i := largest_recipient
                                 \<lparr>amount := round8 (amount largest_recipient + discrepancy)\<rparr>])))
            else Inr rs)
      else Inr rs)"

definition generate_distribution ::
  "('a \<Rightarrow> 'a) \<Rightarrow> ('a::{linorder,zero,plus,minus,times,inverse}) miner list \<Rightarrow> 'a \<Rightarrow> string \<Rightarrow>
   error + 'a distribution list" where
  "generate_distribution round8 miners total_amount token =
     (let total_percentage = py_sum (map avg_participation_percentage miners)
      in case first_pass round8 total_amount total_percentage miners [] 0 of
           Inl e \<Rightarrow> Inl e
         | Inr (rs, running_total) \<Rightarrow>
             (case adjust round8 total_amount rs running_total of
                Inl e \<Rightarrow> Inl e
              | Inr rs' \<Rightarrow> Inr [\<lparr>token_name = token, recipients = rs'\<rparr>]))"

text \<open>The rounded share of one miner, as the first pass computes it.\<close>

definition share :: "('a \<Rightarrow> 'a) \<Rightarrow> 'a \<Rightarrow> 'a \<Rightarrow> ('a::{linorder,zero,plus,times,inverse}) miner \<Rightarrow> 'a" where
  "share round8 total_amount total_percentage m =
     round8 (total_amount * (avg_participation_percentage m / total_percentage))"

subsection \<open>Exact decimal arithmetic\<close>

text \<open>
  The examples are run in exact arithmetic on rationals, with rounding to 8 decimal
  places, ties to the even digit as \<^verbatim>\<open>round\<close> does.
\<close>

definition round_half_even :: "rat \<Rightarrow> int" where
  "round_half_even x =
     (let f = \<lfloor>x\<rfloor>; d = x - of_int f
      in if d < 1 / 2 then f else if 1 / 2 < d then f + 1 else if even f then f else f + 1)"

definition exact_round8 :: "rat \<Rightarrow> rat" where
  "exact_round8 x = of_int (round_half_even (x * 100000000)) / 100000000"

text \<open>A miner of the examples, with its percentage.\<close>

definition participant :: "string \<Rightarrow> rat \<Rightarrow> rat miner" where
  "participant a p = \<lparr>miner_address = a, avg_participation_percentage = p\<rparr>"

section \<open>Properties of the block height collection\<close>

subsection \<open>The loop over one page\<close>

lemma add_heights_append:
  "add_heights m (xs @ ys) S =
     (case add_heights m xs S of Inl e \<Rightarrow> Inl e | Inr S' \<Rightarrow> add_heights m ys S')"
  by (induction xs arbitrary: S) (auto split: option.splits)

lemma add_heights_above:
  "add_heights m xs S = Inr S' \<Longrightarrow> S' \<subseteq> S \<union> {h. m < h} \<and> (finite S \<longrightarrow> finite S')"
proof (induction xs arbitrary: S)
  case Nil
  then show ?case by simp
next
  case (Cons t ts)
  then show ?case
    by (fastforce split: option.splits if_splits)
qed

lemma add_heights_Inr:
  "add_heights m xs S = Inr S' \<Longrightarrow>
     S' = S \<union> {h. m < h \<and> Some h \<in> inclusionHeight ` set xs}"
  by (induction xs arbitrary: S) (auto split: option.splits if_splits simp: image_iff)

lemma add_heights_no_error:
  "0 \<le> m \<Longrightarrow> \<exists>S'. add_heights m xs S = Inr S'"
  by (induction xs arbitrary: S) (auto split: option.splits)

lemma add_heights_pending: "0 \<le> m \<Longrightarrow> add_heights m (replicate n pending) S = Inr S"
  by (induction n) (simp_all add: pending_def)

subsection \<open>The pages of a fixed history\<close>

text \<open>
  Over a fixed history and with a positive page size the loop ends, and it has then added
  the heights of all records from the offset on; every request it sent has that page size.
\<close>

lemma collect_pages_explorer:
  assumes L: "0 < L"
  shows "\<exists>w' ps. collect_pages explorer L m off acc w =
                Some (add_heights m (drop off (history w)) acc, w') \<and>
              history w' = history w \<and> requests w' = requests w @ ps \<and> ps \<noteq> [] \<and>
              (\<forall>p\<in>set ps. limit p = L \<and> concise p)"
proof (induction "length (history w) - off" arbitrary: off acc w rule: less_induct)
  case less
  let ?h = "history w"
  let ?page = "take L (drop off ?h)"
  let ?p = "\<lparr>offset = off, limit = L, concise = True\<rparr>"
  let ?w1 = "w\<lparr>requests := requests w @ [?p]\<rparr>"
  have split: "drop off ?h = ?page @ drop (off + L) ?h"
    by (metis append_take_drop_id drop_drop add.commute)
  have one: "history ?w1 = ?h \<and> requests ?w1 = requests w @ [?p] \<and> [?p] \<noteq> [] \<and>
             (\<forall>p\<in>set [?p]. limit p = L \<and> concise p)"
    by simp
  show ?case
  proof (cases "?page = []")
    case True
    with L have "drop off ?h = []" by simp
    with True have "collect_pages explorer L m off acc w =
        Some (add_heights m (drop off ?h) acc, ?w1)"
      by (subst collect_pages.simps) (simp add: explorer_def)
    with one show ?thesis by blast
  next
    case False
    then have lt: "off < length ?h" by auto
    show ?thesis
    proof (cases "add_heights m ?page acc")
      case (Inl e)
      then have "add_heights m (drop off ?h) acc = Inl e"
        by (subst split) (simp add: add_heights_append)
      with False Inl have "collect_pages explorer L m off acc w =
          Some (add_heights m (drop off ?h) acc, ?w1)"
        by (subst collect_pages.simps) (simp add: explorer_def)
      with one show ?thesis by blast
    next
      case (Inr acc')
      show ?thesis
      proof (cases "length ?page < L")
        case True
        then have "drop (off + L) ?h = []" by auto
        with split have "drop off ?h = ?page" by simp
        with False Inr True have "collect_pages explorer L m off acc w =
            Some (add_heights m (drop off ?h) acc, ?w1)"
          by (subst collect_pages.simps) (simp add: explorer_def)
        with one show ?thesis by blast
      next
        case full: False
        have "length (history ?w1) - (off + L) < length (history w) - off"
          using lt L by simp
        from less[OF this, of acc']
        obtain w' ps where
          rec: "collect_pages explorer L m (off + L) acc' ?w1 =
                  Some (add_heights m (drop (off + L) ?h) acc', w')"
          and hw: "history w' = ?h"
          and rq: "requests w' = requests ?w1 @ ps"
          and ps: "\<forall>p\<in>set ps. limit p = L \<and> concise p"
          by auto
        have "add_heights m (drop off ?h) acc = add_heights m (drop (off + L) ?h) acc'"
          by (subst split) (simp add: add_heights_append Inr)
        with False Inr full rec
        have "collect_pages explorer L m off acc w =
            Some (add_heights m (drop off ?h) acc, w')"
          by (subst collect_pages.simps) (simp add: explorer_def)
        moreover from rq have "requests w' = requests w @ (?p # ps)" by simp
        moreover from ps have "\<forall>p\<in>set (?p # ps). limit p = L \<and> concise p" by simp
        ultimately show ?thesis using hw by blast
      qed
    qed
  qed
qed

lemma scan_blocks_explorer:
  assumes "0 < L" and "0 < m"
  shows "\<exists>w'. scan_blocks explorer L m w =
            Some (Inr (sorted_list_of_set {h. m < h \<and> Some h \<in> inclusionHeight ` set (history w)}), w')"
proof -
  from collect_pages_explorer[OF assms(1), of m 0 "{}" w]
  obtain w' where c: "collect_pages explorer L m 0 {} w = Some (add_heights m (history w) {}, w')"
    by auto
  from add_heights_no_error[of m "history w" "{}"] assms(2)
  obtain S where S: "add_heights m (history w) {} = Inr S" by auto
  from add_heights_Inr[OF S]
  have "S = {h. m < h \<and> Some h \<in> inclusionHeight ` set (history w)}" by simp
  with c S assms(2) show ?thesis
    by (simp add: scan_blocks_def)
qed

lemma scan_blocks_explorer_any:
  assumes "0 < L"
  shows "\<exists>w'. scan_blocks explorer L m w =
            Some (if m = 0 then Inr []
                  else (case add_heights m (history w) {} of
                          Inl e \<Rightarrow> Inl e | Inr S \<Rightarrow> Inr (sorted_list_of_set S)), w')"
proof (cases "m = 0")
  case True
  then show ?thesis by (simp add: scan_blocks_def)
next
  case False
  from collect_pages_explorer[OF assms, of m 0 "{}" w]
  obtain w' where c: "collect_pages explorer L m 0 {} w = Some (add_heights m (history w) {}, w')"
    by auto
  with False show ?thesis
    by (cases "add_heights m (history w) {}") (simp_all add: scan_blocks_def)
qed

subsection \<open>The pages of any service\<close>

lemma collect_pages_above_aux:
  "collect_pages api L m off acc w = Some r \<Longrightarrow>
     (\<forall>S w'. r = (Inr S, w') \<longrightarrow> acc \<subseteq> {h. m < h} \<longrightarrow> finite acc \<longrightarrow>
        S \<subseteq> {h. m < h} \<and> finite S)"
proof (induction rule: collect_pages.raw_induct[rotated 1, consumes 1])
  case (1 collect_pages api page_limit min_block current_offset all_blocks w r)
  show ?case
  proof (intro allI impI)
    fix S w'
    assume r: "r = (Inr S, w')" and sub: "all_blocks \<subseteq> {h. min_block < h}"
      and fin: "finite all_blocks"
    obtain res w1 where
      a: "api \<lparr>offset = current_offset, limit = page_limit, concise = True\<rparr> w = (res, w1)"
      by (cases "api \<lparr>offset = current_offset, limit = page_limit, concise = True\<rparr> w")
    show "S \<subseteq> {h. min_block < h} \<and> finite S"
    proof (cases res)
      case (Inl e)
      with 1(2) a r show ?thesis by simp
    next
      case (Inr items)
      show ?thesis
      proof (cases "items = []")
        case True
        with 1(2) a r Inr sub fin show ?thesis by simp
      next
        case False
        show ?thesis
        proof (cases "add_heights min_block items all_blocks")
          case (Inl e)
          with 1(2) a r Inr False show ?thesis by simp
        next
          case acc': (Inr all_blocks')
          from add_heights_above[OF acc'] sub fin
          have sub': "all_blocks' \<subseteq> {h. min_block < h}" and fin': "finite all_blocks'"
            by auto
          show ?thesis
          proof (cases "length items < page_limit")
            case True
            with 1(2) a r Inr False acc' sub' fin' show ?thesis by simp
          next
            case full: False
            with 1(2) a r Inr False acc'
            have "collect_pages api page_limit min_block (current_offset + page_limit)
                    all_blocks' w1 = Some r"
              by simp
            from 1(1)[OF this] r sub' fin' show ?thesis by blast
          qed
        qed
      qed
    qed
  qed
qed

text \<open>
  What the loop returns is finite and above the reference height; and with a reference
  height that is not negative, an exception of the loop is the exception of a request.
\<close>

lemma collect_pages_above:
  "collect_pages api L m 0 {} w = Some (Inr S, w') \<Longrightarrow> S \<subseteq> {h. m < h} \<and> finite S"
  using collect_pages_above_aux[of api L m 0 "{}" w "(Inr S, w')"] by simp

lemma collect_pages_error_aux:
  "collect_pages api L m off acc w = Some r \<Longrightarrow>
     (\<forall>e w'. r = (Inl e, w') \<longrightarrow> 0 \<le> m \<longrightarrow> (\<exists>p w0. api p w0 = (Inl e, w')))"
proof (induction rule: collect_pages.raw_induct[rotated 1, consumes 1])
  case (1 collect_pages api page_limit min_block current_offset all_blocks w r)
  show ?case
  proof (intro allI impI)
    fix e w'
    assume r: "r = (Inl e, w')" and m: "0 \<le> min_block"
    obtain res w1 where
      a: "api \<lparr>offset = current_offset, limit = page_limit, concise = True\<rparr> w = (res, w1)"
      by (cases "api \<lparr>offset = current_offset, limit = page_limit, concise = True\<rparr> w")
    show "\<exists>p w0. api p w0 = (Inl e, w')"
    proof (cases res)
      case (Inl e')
      with 1(2) a r show ?thesis by auto
    next
      case (Inr items)
      from add_heights_no_error[OF m, of items all_blocks]
      obtain all_blocks' where acc': "add_heights min_block items all_blocks = Inr all_blocks'"
        by auto
      show ?thesis
      proof (cases "items = [] \<or> length items < page_limit")
        case True
        with 1(2) a r Inr acc' show ?thesis by (auto split: if_splits)
      next
        case False
        with 1(2) a r Inr acc'
        have "collect_pages api page_limit min_block (current_offset + page_limit)
                all_blocks' w1 = Some r"
          by simp
        from 1(1)[OF this] r m show ?thesis by blast
      qed
    qed
  qed
qed

lemma collect_pages_error:
  "collect_pages api L m off acc w = Some (Inl e, w') \<Longrightarrow> 0 \<le> m \<Longrightarrow>
     \<exists>p w0. api p w0 = (Inl e, w')"
  using collect_pages_error_aux[of api L m off acc w "(Inl e, w')"] by simp

text \<open>
  The other direction: when a page fetch fails during the scan, after any number of pages
  that were collected, the loop ends with the exception of that fetch, and the set it
  had collected is not part of its result.
\<close>

lemma collect_pages_failed_fetch:
  "failed_fetch_after api L off w ps e w' \<Longrightarrow> 0 \<le> m \<Longrightarrow>
     collect_pages api L m off acc w = Some (Inl e, w')"
proof (induction ps arbitrary: off w acc)
  case Nil
  then show ?case
    by (subst collect_pages.simps) simp
next
  case (Cons page ps)
  obtain res w1 where a: "api \<lparr>offset = off, limit = L, concise = True\<rparr> w = (res, w1)"
    by (cases "api \<lparr>offset = off, limit = L, concise = True\<rparr> w")
  with Cons.prems(1) obtain items where res: "res = Inr items"
    by (cases res) auto
  from Cons.prems(1) a res have page: "items \<noteq> []" "\<not> length items < L"
    and rest: "failed_fetch_after api L (off + L) w1 ps e w'"
    by auto
  from add_heights_no_error[OF Cons.prems(2), of items acc]
  obtain acc' where acc': "add_heights m items acc = Inr acc'" by auto
  from Cons.IH[OF rest Cons.prems(2), of acc'] a res page acc'
  show ?case
    by (subst collect_pages.simps) simp
qed

lemma scan_blocks_above:
  assumes "scan_blocks api L m w = Some (Inr xs, w')"
  shows "distinct xs \<and> sorted xs \<and> (\<forall>x\<in>set xs. m < x)"
proof (cases "m = 0")
  case True
  with assms show ?thesis by (simp add: scan_blocks_def)
next
  case False
  with assms obtain S where c: "collect_pages api L m 0 {} w = Some (Inr S, w')"
    and xs: "xs = sorted_list_of_set S"
    by (auto simp: scan_blocks_def split: option.splits prod.splits sum.splits)
  from collect_pages_above[OF c] xs show ?thesis by auto
qed

text \<open>
  The method is the loop with the two constants, started after the request of
  \<open>get_latest_outgoing_block\<close>, whose result is not used.
\<close>

lemma get_latest_outgoing_block_never_raises:
  "\<exists>h. fst (get_latest_outgoing_block api wa w) = Inr h"
  by (auto simp: get_latest_outgoing_block_def split: prod.splits sum.splits option.splits)

lemma get_blocks_unfold:
  "get_blocks_since_last_outgoing api wa w =
     (case collect_pages api 100 1449260 0 {} (snd (get_latest_outgoing_block api wa w)) of
        None \<Rightarrow> None
      | Some (Inl e, w2) \<Rightarrow> Some (Inr [], w2)
      | Some (Inr S, w2) \<Rightarrow> Some (Inr (sorted_list_of_set S), w2))"
proof -
  obtain h w1 where g: "get_latest_outgoing_block api wa w = (Inr h, w1)"
    using get_latest_outgoing_block_never_raises[of api wa w]
    by (cases "get_latest_outgoing_block api wa w") auto
  then show ?thesis
    by (simp add: get_blocks_since_last_outgoing_def scan_blocks_def
        split: option.splits prod.splits sum.splits)
qed

lemma latest_world_independent:
  "snd (get_latest_outgoing_block api wa w) = snd (get_latest_outgoing_block api wa' w)"
  by (simp add: get_latest_outgoing_block_def split: prod.splits sum.splits option.splits)

text \<open>Over a fixed history the method returns, and what it returns is this.\<close>

lemma latest_world_explorer:
  "snd (get_latest_outgoing_block explorer wa w) =
     w\<lparr>requests := requests w @ [\<lparr>offset = 0, limit = 50, concise = False\<rparr>]\<rparr>"
  by (simp add: get_latest_outgoing_block_def explorer_def split: option.splits)

lemma get_blocks_explorer:
  "\<exists>w'. get_blocks_since_last_outgoing explorer wa w =
     Some (Inr (sorted_list_of_set
                  {h. 1449260 < h \<and> Some h \<in> inclusionHeight ` set (history w)}), w')"
proof -
  let ?w1 = "w\<lparr>requests := requests w @ [\<lparr>offset = 0, limit = 50, concise = False\<rparr>]\<rparr>"
  have "(0::nat) < 100" by simp
  from collect_pages_explorer[OF this, of 1449260 0 "{}" ?w1]
  obtain w' where
    c: "collect_pages explorer 100 1449260 0 {} ?w1 =
          Some (add_heights 1449260 (history w) {}, w')"
    by auto
  from add_heights_no_error[of 1449260 "history w" "{}"]
  obtain S where S: "add_heights 1449260 (history w) {} = Inr S" by auto
  from add_heights_Inr[OF S]
  have "S = {h. 1449260 < h \<and> Some h \<in> inclusionHeight ` set (history w)}" by simp
  with c S show ?thesis
    by (simp add: get_blocks_unfold latest_world_explorer)
qed

section \<open>Properties of the allocation\<close>

subsection \<open>The largest recipient\<close>

text \<open>
  The loop of \<^verbatim>\<open>max\<close> keeps the position of the first element with the largest amount
  among those it has seen (\<open>pre\<close>); so its result is the first position with the largest
  amount of the whole list.
\<close>

lemma argmax_amount_first_largest:
  fixes pre xs :: "('a::linorder) recipient list"
  assumes "best < length pre" and "bv = amount (pre ! best)"
    and "\<forall>j<length pre. amount (pre ! j) \<le> bv"
    and "\<forall>j<best. amount (pre ! j) < bv"
  shows "argmax_amount xs (length pre) best bv < length (pre @ xs) \<and>
         (\<forall>j<length (pre @ xs).
            amount ((pre @ xs) ! j) \<le> amount ((pre @ xs) ! argmax_amount xs (length pre) best bv)) \<and>
         (\<forall>j<argmax_amount xs (length pre) best bv.
            amount ((pre @ xs) ! j) < amount ((pre @ xs) ! argmax_amount xs (length pre) best bv))"
  using assms
proof (induction xs arbitrary: pre best bv)
  case Nil
  then show ?case by simp
next
  case (Cons r xs)
  let ?pre = "pre @ [r]"
  have app: "pre @ r # xs = ?pre @ xs" by simp
  have len: "Suc (length pre) = length ?pre" by simp
  show ?case
  proof (cases "bv < amount r")
    case True
    have 1: "length pre < length ?pre" by simp
    have 2: "amount r = amount (?pre ! length pre)" by simp
    have 3: "\<forall>j<length ?pre. amount (?pre ! j) \<le> amount r"
      using Cons.prems(3) True by (auto simp: nth_append less_Suc_eq)
    have 4: "\<forall>j<length pre. amount (?pre ! j) < amount r"
      using Cons.prems(3) True by (auto simp: nth_append)
    have eq: "argmax_amount (r # xs) (length pre) best bv =
              argmax_amount xs (length ?pre) (length pre) (amount r)"
      using True by simp
    show ?thesis unfolding eq app using Cons.IH[OF 1 2 3 4] .
  next
    case False
    have 1: "best < length ?pre" using Cons.prems(1) by simp
    have 2: "bv = amount (?pre ! best)" using Cons.prems(1,2) by (simp add: nth_append)
    have 3: "\<forall>j<length ?pre. amount (?pre ! j) \<le> bv"
      using Cons.prems(3) False by (auto simp: nth_append less_Suc_eq)
    have 4: "\<forall>j<best. amount (?pre ! j) < bv"
      using Cons.prems(1,4) by (auto simp: nth_append)
    have eq: "argmax_amount (r # xs) (length pre) best bv =
              argmax_amount xs (length ?pre) best bv"
      using False by simp
    show ?thesis unfolding eq app using Cons.IH[OF 1 2 3 4] .
  qed
qed

lemma py_max_amount_first_largest:
  fixes rs :: "('a::linorder) recipient list"
  assumes "rs \<noteq> []"
  shows "\<exists>i. py_max_amount rs = Inr i \<and> i < length rs \<and>
             (\<forall>j<length rs. amount (rs ! j) \<le> amount (rs ! i)) \<and>
             (\<forall>j<i. amount (rs ! j) < amount (rs ! i))"
proof -
  from assms obtain r rest where rs: "rs = r # rest" by (cases rs) auto
  have "argmax_amount rest (length [r]) 0 (amount r) < length ([r] @ rest) \<and>
         (\<forall>j<length ([r] @ rest).
            amount (([r] @ rest) ! j) \<le> amount (([r] @ rest) ! argmax_amount rest (length [r]) 0 (amount r))) \<and>
         (\<forall>j<argmax_amount rest (length [r]) 0 (amount r).
            amount (([r] @ rest) ! j) < amount (([r] @ rest) ! argmax_amount rest (length [r]) 0 (amount r)))"
    by (rule argmax_amount_first_largest) simp_all
  then show ?thesis
    by (simp add: py_max_amount_def rs)
qed

subsection \<open>The first pass\<close>

text \<open>
  With a total percentage of 0 the first round of the loop raises. Otherwise the first
  pass keeps the miners with a positive rounded share, in their order.
\<close>

lemma first_pass_zero:
  fixes ms :: "('a::{linorder,zero,plus,times,inverse}) miner list"
  shows "ms \<noteq> [] \<Longrightarrow> first_pass round8 total_amount 0 ms rs run = Inl ZeroDivisionError"
  by (cases ms) (simp_all add: py_div_def)


lemma first_pass_positive:
  "first_pass round8 total_amount tp ms rs0 run0 = Inr (rs, run) \<Longrightarrow>
     \<forall>r\<in>set rs0. 0 < amount r \<Longrightarrow> \<forall>r\<in>set rs. 0 < amount r"
proof (induction ms arbitrary: rs0 run0)
  case Nil
  then show ?case by simp
next
  case (Cons m ms)
  then show ?case
    by (auto simp: py_div_def Let_def split: if_splits)
qed

subsection \<open>The adjustment\<close>

lemma adjust_fires:
  fixes rs :: "('a::{linorder,zero,plus,minus}) recipient list"
  assumes "rs \<noteq> []" and "round8 (total_amount - run) \<noteq> 0"
  shows "\<exists>i. i < length rs \<and>
             (\<forall>j<length rs. amount (rs ! j) \<le> amount (rs ! i)) \<and>
             (\<forall>j<i. amount (rs ! j) < amount (rs ! i)) \<and>
             adjust round8 total_amount rs run =
               Inr (rs[i := (rs ! i)\<lparr>amount := round8 (amount (rs ! i) + round8 (total_amount - run))\<rparr>])"
proof -
  from py_max_amount_first_largest[OF assms(1)] obtain i where
    "py_max_amount rs = Inr i" "i < length rs"
    "\<forall>j<length rs. amount (rs ! j) \<le> amount (rs ! i)"
    "\<forall>j<i. amount (rs ! j) < amount (rs ! i)" by blast
  with assms show ?thesis
    by (auto simp: adjust_def Let_def)
qed

lemma adjust_idle:
  "rs = [] \<or> round8 (total_amount - run) = 0 \<Longrightarrow> adjust round8 total_amount rs run = Inr rs"
  by (auto simp: adjust_def Let_def)

subsection \<open>The whole function\<close>

lemma generate_distribution_unfold:
  fixes miners :: "('a::{linorder,zero,plus,minus,times,inverse}) miner list"
  assumes "first_pass round8 total_amount (py_sum (map avg_participation_percentage miners))
             miners [] 0 = Inr (rs, run)"
    and "adjust round8 total_amount rs run = Inr rs'"
  shows "generate_distribution round8 miners total_amount token =
           Inr [\<lparr>token_name = token, recipients = rs'\<rparr>]"
  using assms by (simp add: generate_distribution_def)

lemma zero_weight_raises:
  fixes miners :: "('a::{linorder,zero,plus,minus,times,inverse}) miner list"
  assumes "miners \<noteq> []" and "py_sum (map avg_participation_percentage miners) = 0"
  shows "generate_distribution round8 miners total_amount token = Inl ZeroDivisionError"
  using assms by (simp add: generate_distribution_def first_pass_zero)

lemma no_miners_empty_distribution:
  "generate_distribution round8 [] total_amount token =
     Inr [\<lparr>token_name = token, recipients = []\<rparr>]"
  by (simp add: generate_distribution_def adjust_def)

subsection \<open>The sum in exact decimal arithmetic\<close>

text \<open>
  The code computes with binary floating point numbers, and whether the amounts it returns
  add up to the total depends on how each operation rounds. With exact arithmetic in the
  place of the floating point operations, and a total of at most 8 decimal places, the
  amounts of the result add up to the total whenever there is a recipient.
\<close>

lemma round_half_even_of_int: "round_half_even (of_int k) = k"
  by (simp add: round_half_even_def)

lemma exact_round8_grid: "exact_round8 (of_int k / 100000000) = of_int k / 100000000"
  by (simp add: exact_round8_def round_half_even_of_int)

lemma exact_round8_idem: "exact_round8 (exact_round8 x) = exact_round8 x"
  unfolding exact_round8_def[of x] by (rule exact_round8_grid)

lemma exact_round8_add:
  assumes "exact_round8 a = a" and "exact_round8 b = b"
  shows "exact_round8 (a + b) = a + b"
proof -
  let ?m = "round_half_even (a * 100000000)" and ?n = "round_half_even (b * 100000000)"
  from assms have a: "a = of_int ?m / 100000000" and b: "b = of_int ?n / 100000000"
    by (simp_all add: exact_round8_def)
  have "a + b = of_int (?m + ?n) / 100000000"
    by (subst a, subst b) (simp add: add_divide_distrib)
  then show ?thesis
    by (metis exact_round8_grid)
qed

lemma exact_round8_diff:
  assumes "exact_round8 a = a" and "exact_round8 b = b"
  shows "exact_round8 (a - b) = a - b"
proof -
  let ?m = "round_half_even (a * 100000000)" and ?n = "round_half_even (b * 100000000)"
  from assms have a: "a = of_int ?m / 100000000" and b: "b = of_int ?n / 100000000"
    by (simp_all add: exact_round8_def)
  have "a - b = of_int (?m - ?n) / 100000000"
    by (subst a, subst b) (simp add: diff_divide_distrib)
  then show ?thesis
    by (metis exact_round8_grid)
qed

lemma exact_round8_sum_list:
  "\<forall>r\<in>set rs. exact_round8 (amount r) = amount r \<Longrightarrow>
     exact_round8 (sum_list (map amount rs)) = sum_list (map amount rs)"
proof (induction rs)
  case Nil
  show ?case using exact_round8_grid[of 0] by simp
next
  case (Cons r rs)
  then show ?case by (simp add: exact_round8_add)
qed

lemma first_pass_exact:
  "first_pass exact_round8 total_amount tp ms rs0 run0 = Inr (rs, run) \<Longrightarrow>
     run0 = sum_list (map amount rs0) \<Longrightarrow>
     \<forall>r\<in>set rs0. exact_round8 (amount r) = amount r \<Longrightarrow>
     run = sum_list (map amount rs) \<and> (\<forall>r\<in>set rs. exact_round8 (amount r) = amount r)"
proof (induction ms arbitrary: rs0 run0)
  case Nil
  then show ?case by auto
next
  case (Cons m ms)
  let ?amt = "share exact_round8 total_amount tp m"
  from Cons.prems(1) have tp: "tp \<noteq> 0"
    by (auto simp: py_div_def split: if_splits)
  show ?case
  proof (cases "0 < ?amt")
    case True
    let ?rs1 = "rs0 @ [\<lparr>address = miner_address m, amount = ?amt\<rparr>]"
    from True Cons.prems(1) tp
    have 1: "first_pass exact_round8 total_amount tp ms ?rs1 (run0 + ?amt) = Inr (rs, run)"
      by (simp add: py_div_def share_def Let_def)
    have 2: "run0 + ?amt = sum_list (map amount ?rs1)"
      using Cons.prems(2) by simp
    have 3: "\<forall>r\<in>set ?rs1. exact_round8 (amount r) = amount r"
      using Cons.prems(3) by (auto simp: share_def exact_round8_idem)
    from Cons.IH[OF 1 2 3] show ?thesis .
  next
    case False
    with Cons.prems(1) tp
    have "first_pass exact_round8 total_amount tp ms rs0 run0 = Inr (rs, run)"
      by (simp add: py_div_def share_def Let_def)
    from Cons.IH[OF this Cons.prems(2,3)] show ?thesis .
  qed
qed

lemma sum_list_amount_update:
  fixes rs :: "rat recipient list"
  assumes "i < length rs"
  shows "sum_list (map amount (rs[i := (rs ! i)\<lparr>amount := a\<rparr>])) =
           sum_list (map amount rs) - amount (rs ! i) + a"
  using assms
proof (induction rs arbitrary: i)
  case Nil
  then show ?case by simp
next
  case (Cons r rs)
  then show ?case by (cases i) simp_all
qed

lemma exact_sum_is_total:
  assumes grid: "exact_round8 total_amount = total_amount"
    and fp: "first_pass exact_round8 total_amount
               (py_sum (map avg_participation_percentage miners)) miners [] 0 = Inr (rs, run)"
    and ne: "rs \<noteq> []"
  shows "\<exists>rs'. generate_distribution exact_round8 miners total_amount token =
                 Inr [\<lparr>token_name = token, recipients = rs'\<rparr>] \<and>
               sum_list (map amount rs') = total_amount"
proof -
  from first_pass_exact[OF fp] have run: "run = sum_list (map amount rs)"
    and g: "\<forall>r\<in>set rs. exact_round8 (amount r) = amount r" by simp_all
  from exact_round8_sum_list[OF g] run have grun: "exact_round8 run = run" by simp
  have d: "exact_round8 (total_amount - run) = total_amount - run"
    by (rule exact_round8_diff[OF grid grun])
  show ?thesis
  proof (cases "exact_round8 (total_amount - run) = 0")
    case True
    then have "adjust exact_round8 total_amount rs run = Inr rs"
      by (simp add: adjust_idle)
    from generate_distribution_unfold[OF fp this, of token] True d run
    show ?thesis by auto
  next
    case False
    from adjust_fires[where rs = rs and ?round8.0 = exact_round8
        and total_amount = total_amount and run = run, OF ne False]
    obtain i where i: "i < length rs"
      and a: "adjust exact_round8 total_amount rs run =
        Inr (rs[i := (rs ! i)\<lparr>amount :=
          exact_round8 (amount (rs ! i) + exact_round8 (total_amount - run))\<rparr>])"
      by blast
    from i g have gi: "exact_round8 (amount (rs ! i)) = amount (rs ! i)" by simp
    have "exact_round8 (amount (rs ! i) + (total_amount - run)) =
            amount (rs ! i) + (total_amount - run)"
      using exact_round8_add[OF gi] d by simp
    with d have new: "exact_round8 (amount (rs ! i) + exact_round8 (total_amount - run)) =
            amount (rs ! i) + (total_amount - run)" by simp
    have "sum_list (map amount (rs[i := (rs ! i)\<lparr>amount :=
            exact_round8 (amount (rs ! i) + exact_round8 (total_amount - run))\<rparr>])) = total_amount"
      unfolding new sum_list_amount_update[OF i] using run by simp
    with generate_distribution_unfold[OF fp a, of token] show ?thesis by blast
  qed
qed

section \<open>The claims on the block height collection\<close>

subsection \<open>C2: one page size for every call site\<close>

text \<open>
  For every history the run asks for the first page of 50 records once, in
  \<open>get_latest_outgoing_block\<close>, and then only for pages of 100 records, in the loop.
\<close>

lemma run_requests:
  "\<exists>r w' ps. get_blocks_since_last_outgoing explorer wa w = Some (r, w') \<and>
     requests w' = requests w @ \<lparr>offset = 0, limit = 50, concise = False\<rparr> # ps \<and>
     ps \<noteq> [] \<and> (\<forall>p\<in>set ps. limit p = 100)"
proof -
  let ?w1 = "w\<lparr>requests := requests w @ [\<lparr>offset = 0, limit = 50, concise = False\<rparr>]\<rparr>"
  have "(0::nat) < 100" by simp
  from collect_pages_explorer[OF this, of 1449260 0 "{}" ?w1]
  obtain w' ps where
    c: "collect_pages explorer 100 1449260 0 {} ?w1 =
          Some (add_heights 1449260 (history ?w1) {}, w')"
    and rq: "requests w' = requests ?w1 @ ps" and ps: "ps \<noteq> []" "\<forall>p\<in>set ps. limit p = 100"
    by auto
  from rq have "requests w' = requests w @ \<lparr>offset = 0, limit = 50, concise = False\<rparr> # ps"
    by simp
  with c ps show ?thesis
    by (cases "add_heights 1449260 (history ?w1) {}")
      (auto simp: get_blocks_unfold latest_world_explorer)
qed

text \<open>
  Claim C2: the page size is one constant, shared by every call site that fetches pages of
  transactions. The code does not keep it: on the 54 record feed the run of
  \<open>get_blocks_since_last_outgoing\<close> sends two requests, the one of
  \<open>get_latest_outgoing_block\<close> with limit 50 and the one of the loop with limit 100.
\<close>

theorem page_limits_of_run:
  "get_blocks_since_last_outgoing explorer ''9fE5'' \<lparr>history = feed54, requests = []\<rparr> =
     Some (Inr [1509846, 1509996, 1510211, 1510299],
           \<lparr>history = feed54,
            requests = [\<lparr>offset = 0, limit = 50, concise = False\<rparr>,
                        \<lparr>offset = 0, limit = 100, concise = True\<rparr>]\<rparr>)"
  by code_simp

subsection \<open>C3: the block set does not depend on the page size\<close>

text \<open>
  Claim C3: over every finite history, the scan with a page size held constant returns the
  same block set for any two positive page sizes. Both scans end; for a positive reference
  height the result is the ascending list of the heights of the history above it.
\<close>

theorem page_size_independence:
  assumes "0 < L1" and "0 < L2"
  shows "\<exists>r w1 w2. scan_blocks explorer L1 m w = Some (r, w1) \<and>
                   scan_blocks explorer L2 m w = Some (r, w2) \<and>
                   (0 < m \<longrightarrow> r = Inr (sorted_list_of_set
                       {h. m < h \<and> Some h \<in> inclusionHeight ` set (history w)}))"
proof -
  from scan_blocks_explorer_any[OF assms(1), of m w] obtain w1 where
    1: "scan_blocks explorer L1 m w =
          Some (if m = 0 then Inr []
                else (case add_heights m (history w) {} of
                        Inl e \<Rightarrow> Inl e | Inr S \<Rightarrow> Inr (sorted_list_of_set S)), w1)" ..
  from scan_blocks_explorer_any[OF assms(2), of m w] obtain w2 where
    2: "scan_blocks explorer L2 m w =
          Some (if m = 0 then Inr []
                else (case add_heights m (history w) {} of
                        Inl e \<Rightarrow> Inl e | Inr S \<Rightarrow> Inr (sorted_list_of_set S)), w2)" ..
  have 3: "(if m = 0 then Inr []
            else (case add_heights m (history w) {} of
                    Inl e \<Rightarrow> Inl e | Inr S \<Rightarrow> Inr (sorted_list_of_set S))) =
           Inr (sorted_list_of_set {h. m < h \<and> Some h \<in> inclusionHeight ` set (history w)})"
    if "0 < m"
    using scan_blocks_explorer[OF assms(1) that, of w] 1 by simp
  from 1 2 3 show ?thesis by blast
qed

text \<open>
  The feed with the qualifying records at positions 51 to 54: with pages of 50 the loop
  goes on after the full first page and finds them on the second, with pages of 100 it
  finds them on the first.
\<close>

theorem page_size_independence_witness:
  "(0::nat) < 50 \<and> (0::nat) < 100 \<and>
   scan_blocks explorer 50 1449260 \<lparr>history = feed54, requests = []\<rparr> =
     Some (Inr [1509846, 1509996, 1510211, 1510299],
           \<lparr>history = feed54,
            requests = [\<lparr>offset = 0, limit = 50, concise = True\<rparr>,
                        \<lparr>offset = 50, limit = 50, concise = True\<rparr>]\<rparr>) \<and>
   scan_blocks explorer 100 1449260 \<lparr>history = feed54, requests = []\<rparr> =
     Some (Inr [1509846, 1509996, 1510211, 1510299],
           \<lparr>history = feed54,
            requests = [\<lparr>offset = 0, limit = 100, concise = True\<rparr>]\<rparr>)"
  using page_size_independence[of 50 100 1449260 "\<lparr>history = feed54, requests = []\<rparr>"]
  by (simp add: scan_blocks_def collect_pages.simps explorer_def feed54_def
      add_heights_pending add_heights_append included_def)

subsection \<open>C4: a failed page fetch\<close>

text \<open>
  Claim C4, as the specification has it: a failed page fetch aborts the scan and surfaces
  an error to the caller, and no partial or empty block set is returned as if it were
  complete. The code does otherwise. On a history of 100 qualifying records the second
  page is asked for; when that request fails, the method returns the empty list, which is
  also what it returns for the empty history.
\<close>

theorem fetch_failure_counterexample:
  "get_blocks_since_last_outgoing (failing_after 2) ''9fE5''
     \<lparr>history = replicate 100 (included 1509846), requests = []\<rparr> =
     Some (Inr [],
           \<lparr>history = replicate 100 (included 1509846),
            requests = [\<lparr>offset = 0, limit = 50, concise = False\<rparr>,
                        \<lparr>offset = 0, limit = 100, concise = True\<rparr>,
                        \<lparr>offset = 100, limit = 100, concise = True\<rparr>]\<rparr>) \<and>
   get_blocks_since_last_outgoing explorer ''9fE5'' \<lparr>history = [], requests = []\<rparr> =
     Some (Inr [],
           \<lparr>history = [],
            requests = [\<lparr>offset = 0, limit = 50, concise = False\<rparr>,
                        \<lparr>offset = 0, limit = 100, concise = True\<rparr>]\<rparr>)"
  by code_simp

text \<open>
  Claim C4, amended: when a page fetch fails during the scan, after any number of pages
  that the loop has collected, the method returns the empty list and drops what it had
  collected; so it does whenever the loop ends with an exception; the method never
  raises; and a failed request in \<open>get_latest_outgoing_block\<close> is answered with the
  height 0.
\<close>

theorem fetch_failure_returns_empty:
  "(failed_fetch_after api 100 0 (snd (get_latest_outgoing_block api wa w)) ps e0 w0 \<longrightarrow>
    get_blocks_since_last_outgoing api wa w = Some (Inr [], w0)) \<and>
   (collect_pages api 100 1449260 0 {} (snd (get_latest_outgoing_block api wa w)) =
      Some (Inl e, w') \<longrightarrow>
    get_blocks_since_last_outgoing api wa w = Some (Inr [], w')) \<and>
   get_blocks_since_last_outgoing api wa w \<noteq> Some (Inl e', w'') \<and>
   (fst (api \<lparr>offset = 0, limit = 50, concise = False\<rparr> w) = Inl e'' \<longrightarrow>
    fst (get_latest_outgoing_block api wa w) = Inr 0)"
proof (intro conjI impI)
  assume "failed_fetch_after api 100 0 (snd (get_latest_outgoing_block api wa w)) ps e0 w0"
  then have "collect_pages api 100 1449260 0 {} (snd (get_latest_outgoing_block api wa w)) =
      Some (Inl e0, w0)"
    by (rule collect_pages_failed_fetch) simp
  then show "get_blocks_since_last_outgoing api wa w = Some (Inr [], w0)"
    by (simp add: get_blocks_unfold)
next
  assume "collect_pages api 100 1449260 0 {} (snd (get_latest_outgoing_block api wa w)) =
      Some (Inl e, w')"
  then show "get_blocks_since_last_outgoing api wa w = Some (Inr [], w')"
    by (simp add: get_blocks_unfold)
next
  show "get_blocks_since_last_outgoing api wa w \<noteq> Some (Inl e', w'')"
    by (simp add: get_blocks_unfold split: option.splits prod.splits sum.splits)
next
  assume "fst (api \<lparr>offset = 0, limit = 50, concise = False\<rparr> w) = Inl e''"
  then show "fst (get_latest_outgoing_block api wa w) = Inr 0"
    by (auto simp: get_latest_outgoing_block_def split: prod.splits sum.splits)
qed

text \<open>
  A history of 100 qualifying records and a service that fails the first request, the one
  of \<open>get_latest_outgoing_block\<close>, and the third, the one for the second page. The first
  page is fetched in full and its height is collected; the fetch of the second page
  fails, and the method returns the empty list.
\<close>

theorem fetch_failure_returns_empty_witness:
  "fst (failing_on [0, 2] \<lparr>offset = 0, limit = 50, concise = False\<rparr>
          \<lparr>history = replicate 100 (included 1509846), requests = []\<rparr>) = Inl RequestError \<and>
   fst (get_latest_outgoing_block (failing_on [0, 2]) ''9fE5''
          \<lparr>history = replicate 100 (included 1509846), requests = []\<rparr>) = Inr 0 \<and>
   failing_on [0, 2] \<lparr>offset = 0, limit = 100, concise = True\<rparr>
     \<lparr>history = replicate 100 (included 1509846),
      requests = [\<lparr>offset = 0, limit = 50, concise = False\<rparr>]\<rparr> =
     (Inr (replicate 100 (included 1509846)),
      \<lparr>history = replicate 100 (included 1509846),
       requests = [\<lparr>offset = 0, limit = 50, concise = False\<rparr>,
                   \<lparr>offset = 0, limit = 100, concise = True\<rparr>]\<rparr>) \<and>
   add_heights 1449260 (replicate 100 (included 1509846)) {} = Inr {1509846} \<and>
   failed_fetch_after (failing_on [0, 2]) 100 0
     (snd (get_latest_outgoing_block (failing_on [0, 2]) ''9fE5''
             \<lparr>history = replicate 100 (included 1509846), requests = []\<rparr>))
     [replicate 100 (included 1509846)] RequestError
     \<lparr>history = replicate 100 (included 1509846),
      requests = [\<lparr>offset = 0, limit = 50, concise = False\<rparr>,
                  \<lparr>offset = 0, limit = 100, concise = True\<rparr>,
                  \<lparr>offset = 100, limit = 100, concise = True\<rparr>]\<rparr> \<and>
   collect_pages (failing_on [0, 2]) 100 1449260 0 {}
     (snd (get_latest_outgoing_block (failing_on [0, 2]) ''9fE5''
             \<lparr>history = replicate 100 (included 1509846), requests = []\<rparr>)) =
     Some (Inl RequestError,
           \<lparr>history = replicate 100 (included 1509846),
            requests = [\<lparr>offset = 0, limit = 50, concise = False\<rparr>,
                        \<lparr>offset = 0, limit = 100, concise = True\<rparr>,
                        \<lparr>offset = 100, limit = 100, concise = True\<rparr>]\<rparr>) \<and>
   get_blocks_since_last_outgoing (failing_on [0, 2]) ''9fE5''
     \<lparr>history = replicate 100 (included 1509846), requests = []\<rparr> =
     Some (Inr [],
           \<lparr>history = replicate 100 (included 1509846),
            requests = [\<lparr>offset = 0, limit = 50, concise = False\<rparr>,
                        \<lparr>offset = 0, limit = 100, concise = True\<rparr>,
                        \<lparr>offset = 100, limit = 100, concise = True\<rparr>]\<rparr>)"
proof -
  let ?h = "replicate 100 (included 1509846)"
  let ?api = "failing_on [0, 2]"
  let ?w = "\<lparr>history = ?h, requests = []\<rparr>"
  let ?w1 = "\<lparr>history = ?h, requests = [\<lparr>offset = 0, limit = 50, concise = False\<rparr>]\<rparr>"
  let ?w2 = "\<lparr>history = ?h, requests = [\<lparr>offset = 0, limit = 50, concise = False\<rparr>,
                                       \<lparr>offset = 0, limit = 100, concise = True\<rparr>]\<rparr>"
  let ?w3 = "\<lparr>history = ?h, requests = [\<lparr>offset = 0, limit = 50, concise = False\<rparr>,
                                       \<lparr>offset = 0, limit = 100, concise = True\<rparr>,
                                       \<lparr>offset = 100, limit = 100, concise = True\<rparr>]\<rparr>"
  have f: "fst (?api \<lparr>offset = 0, limit = 50, concise = False\<rparr> ?w) = Inl RequestError"
    by code_simp
  have l: "snd (get_latest_outgoing_block ?api ''9fE5'' ?w) = ?w1"
    by code_simp
  have p1: "?api \<lparr>offset = 0, limit = 100, concise = True\<rparr> ?w1 = (Inr ?h, ?w2)"
    by code_simp
  have p2: "?api \<lparr>offset = 100, limit = 100, concise = True\<rparr> ?w2 = (Inl RequestError, ?w3)"
    by code_simp
  have a: "add_heights 1449260 ?h {} = Inr {1509846}"
    by code_simp
  have ff: "failed_fetch_after ?api 100 0 (snd (get_latest_outgoing_block ?api ''9fE5'' ?w))
              [?h] RequestError ?w3"
    unfolding l by (simp add: p1 p2)
  have c: "collect_pages ?api 100 1449260 0 {} (snd (get_latest_outgoing_block ?api ''9fE5'' ?w)) =
             Some (Inl RequestError, ?w3)"
    using ff by (rule collect_pages_failed_fetch) simp
  note t = fetch_failure_returns_empty[where api = ?api and wa = "''9fE5''" and w = ?w
      and ps = "[?h]" and ?e0.0 = RequestError and ?w0.0 = ?w3 and e = RequestError and w' = ?w3
      and e' = RequestError and w'' = ?w and e'' = RequestError]
  from t ff have r: "get_blocks_since_last_outgoing ?api ''9fE5'' ?w = Some (Inr [], ?w3)"
    by blast
  from t f have z: "fst (get_latest_outgoing_block ?api ''9fE5'' ?w) = Inr 0"
    by blast
  from f z p1 a ff c r show ?thesis by (intro conjI)
qed

subsection \<open>C7: the returned sequence\<close>

text \<open>
  Claim C7: the sequence that the collection returns has no duplicates, is in ascending
  order, and every element is strictly greater than the reference height. This holds of
  the scan for every reference height \<open>m\<close> and every service, and of the method, whose
  reference height is the constant 1449260; and over every fixed history the method does
  return a sequence.
\<close>

theorem blocks_distinct_sorted_above:
  "(scan_blocks api L m w = Some (Inr xs, w1) \<longrightarrow>
      distinct xs \<and> sorted xs \<and> (\<forall>x\<in>set xs. m < x)) \<and>
   (get_blocks_since_last_outgoing api wa w = Some (Inr ys, w2) \<longrightarrow>
      distinct ys \<and> sorted ys \<and> (\<forall>y\<in>set ys. 1449260 < y)) \<and>
   (\<exists>zs w3. get_blocks_since_last_outgoing explorer wa hw = Some (Inr zs, w3))"
proof (intro conjI impI)
  from get_blocks_explorer[of wa hw]
  show "\<exists>zs w3. get_blocks_since_last_outgoing explorer wa hw = Some (Inr zs, w3)"
    by blast
next
  assume "scan_blocks api L m w = Some (Inr xs, w1)"
  from scan_blocks_above[OF this]
  show "distinct xs" and "sorted xs" and "\<forall>x\<in>set xs. m < x" by simp_all
next
  assume a: "get_blocks_since_last_outgoing api wa w = Some (Inr ys, w2)"
  have "ys = [] \<or> (\<exists>w1. scan_blocks api 100 1449260 w1 = Some (Inr ys, w2))"
    using a
    by (auto simp: get_blocks_since_last_outgoing_def
        split: prod.splits sum.splits option.splits)
  with scan_blocks_above
  show "distinct ys" and "sorted ys" and "\<forall>y\<in>set ys. 1449260 < y" by fastforce+
qed

text \<open>
  A history with a height that occurs twice, a pending transaction, and heights that are
  not above the reference.
\<close>

theorem blocks_distinct_sorted_above_witness:
  "scan_blocks explorer 100 1449260
     \<lparr>history = [included 1509846, spent_by ''9fE5'' 1509800, included 1509846, pending,
                  included 1449260, included 1400000],
      requests = []\<rparr> =
     Some (Inr [1509800, 1509846],
       \<lparr>history = [included 1509846, spent_by ''9fE5'' 1509800, included 1509846, pending,
                    included 1449260, included 1400000],
        requests = [\<lparr>offset = 0, limit = 100, concise = True\<rparr>]\<rparr>) \<and>
   get_blocks_since_last_outgoing explorer ''9fE5''
     \<lparr>history = [included 1509846, spent_by ''9fE5'' 1509800, included 1509846, pending,
                  included 1449260, included 1400000],
      requests = []\<rparr> =
     Some (Inr [1509800, 1509846],
       \<lparr>history = [included 1509846, spent_by ''9fE5'' 1509800, included 1509846, pending,
                    included 1449260, included 1400000],
        requests = [\<lparr>offset = 0, limit = 50, concise = False\<rparr>,
                    \<lparr>offset = 0, limit = 100, concise = True\<rparr>]\<rparr>) \<and>
   distinct [1509800, 1509846 :: int] \<and> sorted [1509800, 1509846 :: int] \<and>
   (1449260 :: int) < 1509800 \<and> (1449260 :: int) < 1509846"
proof -
  let ?h = "[included 1509846, spent_by ''9fE5'' 1509800, included 1509846, pending,
             included 1449260, included 1400000]"
  let ?w = "\<lparr>history = ?h, requests = []\<rparr>"
  let ?w1 = "\<lparr>history = ?h, requests = [\<lparr>offset = 0, limit = 100, concise = True\<rparr>]\<rparr>"
  let ?w2 = "\<lparr>history = ?h, requests = [\<lparr>offset = 0, limit = 50, concise = False\<rparr>,
                  \<lparr>offset = 0, limit = 100, concise = True\<rparr>]\<rparr>"
  have scan: "scan_blocks explorer 100 1449260 ?w = Some (Inr [1509800, 1509846], ?w1)"
    by code_simp
  have run: "get_blocks_since_last_outgoing explorer ''9fE5'' ?w =
               Some (Inr [1509800, 1509846], ?w2)"
    by code_simp
  from scan run blocks_distinct_sorted_above[of explorer 100 1449260 ?w "[1509800, 1509846]" ?w1
      "''9fE5''" "[1509800, 1509846]" ?w2 ?w]
  show ?thesis by simp
qed

subsection \<open>C8: the latest outgoing block\<close>

text \<open>
  Claim C8, as the specification has it: the scan for the reference point goes through as
  many pages as needed and returns the height of the most recent record with the wallet
  among its inputs, and 0 only when no record of the history matches. The code reads one
  page: with the only outgoing record at position 51 it returns 0.
\<close>

theorem latest_outgoing_counterexample:
  "fst (get_latest_outgoing_block explorer ''9fE5''
          \<lparr>history = replicate 50 (included 1500000) @ [spent_by ''9fE5'' 1449300],
           requests = []\<rparr>) = Inr 0"
  by code_simp

text \<open>
  Claim C8, amended: \<open>get_latest_outgoing_block\<close> sends one request, for the 50 newest
  records, and returns the height of the first of them that has the wallet among its
  inputs, and 0 when none of them has.
\<close>

theorem latest_outgoing_first_page_only:
  "(i < length (history w) \<and> i < 50 \<and> is_outgoing wa (history w ! i) \<and>
      (\<forall>j<i. \<not> is_outgoing wa (history w ! j)) \<and> inclusionHeight (history w ! i) = Some h \<longrightarrow>
    fst (get_latest_outgoing_block explorer wa w) = Inr h) \<and>
   ((\<forall>j. j < length (history w) \<and> j < 50 \<longrightarrow> \<not> is_outgoing wa (history w ! j)) \<longrightarrow>
    fst (get_latest_outgoing_block explorer wa w) = Inr 0) \<and>
   requests (snd (get_latest_outgoing_block explorer wa w)) =
     requests w @ [\<lparr>offset = 0, limit = 50, concise = False\<rparr>]"
proof (intro conjI impI)
  assume a: "i < length (history w) \<and> i < 50 \<and> is_outgoing wa (history w ! i) \<and>
      (\<forall>j<i. \<not> is_outgoing wa (history w ! j)) \<and> inclusionHeight (history w ! i) = Some h"
  then have "find (is_outgoing wa) (take 50 (history w)) = Some (history w ! i)"
    by (auto simp: find_Some_iff intro!: exI[of _ i])
  with a show "fst (get_latest_outgoing_block explorer wa w) = Inr h"
    by (simp add: get_latest_outgoing_block_def explorer_def)
next
  assume "\<forall>j. j < length (history w) \<and> j < 50 \<longrightarrow> \<not> is_outgoing wa (history w ! j)"
  then have "find (is_outgoing wa) (take 50 (history w)) = None"
    by (auto simp: find_None_iff in_set_conv_nth)
  then show "fst (get_latest_outgoing_block explorer wa w) = Inr 0"
    by (simp add: get_latest_outgoing_block_def explorer_def)
next
  show "requests (snd (get_latest_outgoing_block explorer wa w)) =
     requests w @ [\<lparr>offset = 0, limit = 50, concise = False\<rparr>]"
    by (simp add: latest_world_explorer)
qed

theorem latest_outgoing_first_page_only_witness:
  "fst (get_latest_outgoing_block explorer ''9fE5''
          \<lparr>history = [included 1510299, spent_by ''9fE5'' 1509800, spent_by ''9fE5'' 1500000],
           requests = []\<rparr>) = Inr 1509800 \<and>
   fst (get_latest_outgoing_block explorer ''9fE5''
          \<lparr>history = [included 1510299, included 1509800], requests = []\<rparr>) = Inr 0"
proof -
  let ?w1 = "\<lparr>history = [included 1510299, spent_by ''9fE5'' 1509800, spent_by ''9fE5'' 1500000],
           requests = []\<rparr>"
  let ?w2 = "\<lparr>history = [included 1510299, included 1509800], requests = []\<rparr>"
  have 1: "1 < length (history ?w1) \<and> (1::nat) < 50 \<and> is_outgoing ''9fE5'' (history ?w1 ! 1) \<and>
      (\<forall>j<1. \<not> is_outgoing ''9fE5'' (history ?w1 ! j)) \<and>
      inclusionHeight (history ?w1 ! 1) = Some 1509800"
    by (simp add: is_outgoing_def included_def spent_by_def)
  have 2: "\<forall>j. j < length (history ?w2) \<and> j < 50 \<longrightarrow> \<not> is_outgoing ''9fE5'' (history ?w2 ! j)"
    by (auto simp: is_outgoing_def included_def less_Suc_eq numeral_2_eq_2)
  from latest_outgoing_first_page_only[of 1 ?w1 "''9fE5''" 1509800] 1
    latest_outgoing_first_page_only[of 0 ?w2 "''9fE5''" 0] 2
  show ?thesis by blast
qed

subsection \<open>C10: the constant reference height\<close>

text \<open>
  Claim C10: the block set is computed against the constant 1449260 and does not depend
  on the height that \<open>get_latest_outgoing_block\<close> returns. The method is the loop over the
  pages with that constant, started in the state that the first request leaves, without
  the branch for a reference height of 0; and since the first request is the same for
  every wallet address, two runs that differ in the address, and so in the height found,
  give the same result. Over a fixed history the result is the ascending list of the
  heights above 1449260.
\<close>

theorem blocks_independent_of_latest_outgoing:
  "get_blocks_since_last_outgoing api wa w =
     (case collect_pages api 100 1449260 0 {} (snd (get_latest_outgoing_block api wa w)) of
        None \<Rightarrow> None
      | Some (Inl e, w2) \<Rightarrow> Some (Inr [], w2)
      | Some (Inr S, w2) \<Rightarrow> Some (Inr (sorted_list_of_set S), w2)) \<and>
   get_blocks_since_last_outgoing api wa w = get_blocks_since_last_outgoing api wa' w \<and>
   (\<exists>w3. get_blocks_since_last_outgoing explorer wa hw =
      Some (Inr (sorted_list_of_set
                   {h. 1449260 < h \<and> Some h \<in> inclusionHeight ` set (history hw)}), w3))"
proof (intro conjI)
  show "\<exists>w3. get_blocks_since_last_outgoing explorer wa hw =
      Some (Inr (sorted_list_of_set
                   {h. 1449260 < h \<and> Some h \<in> inclusionHeight ` set (history hw)}), w3)"
    by (rule get_blocks_explorer)
next
  show "get_blocks_since_last_outgoing api wa w =
     (case collect_pages api 100 1449260 0 {} (snd (get_latest_outgoing_block api wa w)) of
        None \<Rightarrow> None
      | Some (Inl e, w2) \<Rightarrow> Some (Inr [], w2)
      | Some (Inr S, w2) \<Rightarrow> Some (Inr (sorted_list_of_set S), w2))"
    by (rule get_blocks_unfold)
next
  show "get_blocks_since_last_outgoing api wa w = get_blocks_since_last_outgoing api wa' w"
    by (simp add: get_blocks_unfold latest_world_independent[of api wa w wa'])
qed

text \<open>
  One history, two wallets: the first has its latest outgoing transaction at height
  1500000, the second has none, so that the height found is 0. Both runs return the two
  heights above 1449260, one of them below 1500000.
\<close>

theorem blocks_independent_of_latest_outgoing_witness:
  "fst (get_latest_outgoing_block explorer ''9fE5''
          \<lparr>history = [spent_by ''9fE5'' 1500000, included 1449300], requests = []\<rparr>) =
     Inr 1500000 \<and>
   fst (get_latest_outgoing_block explorer ''9gQ7''
          \<lparr>history = [spent_by ''9fE5'' 1500000, included 1449300], requests = []\<rparr>) = Inr 0 \<and>
   get_blocks_since_last_outgoing explorer ''9fE5''
     \<lparr>history = [spent_by ''9fE5'' 1500000, included 1449300], requests = []\<rparr> =
     Some (Inr [1449300, 1500000],
           \<lparr>history = [spent_by ''9fE5'' 1500000, included 1449300],
            requests = [\<lparr>offset = 0, limit = 50, concise = False\<rparr>,
                        \<lparr>offset = 0, limit = 100, concise = True\<rparr>]\<rparr>) \<and>
   get_blocks_since_last_outgoing explorer ''9gQ7''
     \<lparr>history = [spent_by ''9fE5'' 1500000, included 1449300], requests = []\<rparr> =
     Some (Inr [1449300, 1500000],
           \<lparr>history = [spent_by ''9fE5'' 1500000, included 1449300],
            requests = [\<lparr>offset = 0, limit = 50, concise = False\<rparr>,
                        \<lparr>offset = 0, limit = 100, concise = True\<rparr>]\<rparr>)"
proof -
  let ?w = "\<lparr>history = [spent_by ''9fE5'' 1500000, included 1449300], requests = []\<rparr>"
  have 1: "fst (get_latest_outgoing_block explorer ''9fE5'' ?w) = Inr 1500000"
    by code_simp
  have 2: "fst (get_latest_outgoing_block explorer ''9gQ7'' ?w) = Inr 0"
    by code_simp
  have 3: "get_blocks_since_last_outgoing explorer ''9fE5'' ?w =
     Some (Inr [1449300, 1500000],
           \<lparr>history = [spent_by ''9fE5'' 1500000, included 1449300],
            requests = [\<lparr>offset = 0, limit = 50, concise = False\<rparr>,
                        \<lparr>offset = 0, limit = 100, concise = True\<rparr>]\<rparr>)"
    by code_simp
  have "get_blocks_since_last_outgoing explorer ''9fE5'' ?w =
        get_blocks_since_last_outgoing explorer ''9gQ7'' ?w"
    using blocks_independent_of_latest_outgoing[of explorer "''9fE5''" ?w "''9gQ7''" ?w]
    by (elim conjE)
  with 3
  have "get_blocks_since_last_outgoing explorer ''9gQ7'' ?w =
     Some (Inr [1449300, 1500000],
           \<lparr>history = [spent_by ''9fE5'' 1500000, included 1449300],
            requests = [\<lparr>offset = 0, limit = 50, concise = False\<rparr>,
                        \<lparr>offset = 0, limit = 100, concise = True\<rparr>]\<rparr>)"
    by simp
  with 1 2 3 show ?thesis by (intro conjI)
qed

section \<open>The claims on the allocation\<close>

subsection \<open>C5: no weight to distribute by\<close>

text \<open>
  Claim C5: for a participation set that is empty, or whose weights sum to zero,
  \<open>generate_distribution\<close> returns a distribution without recipients and raises no
  error. It does so for the empty set (\<open>no_miners_empty_distribution\<close>). For a set that is
  not empty and whose weights sum to zero the division by the sum raises in the first
  round of the loop (\<open>zero_weight_raises\<close>); here, for two miners with weight 0.
\<close>

theorem zero_total_weight_raises:
  "generate_distribution exact_round8 [participant ''9hA'' 0, participant ''9hB'' 0] (11 / 2)
     ''ergo'' = Inl ZeroDivisionError"
  by code_simp

subsection \<open>C6: where the discrepancy goes\<close>




subsection \<open>C9: what the correction leaves alone\<close>

text \<open>
  Claim C9: when the correction fires, the number of recipients, their order and their
  addresses are those of the first pass, and so is every amount but the one of the
  selected largest recipient.
\<close>

theorem correction_changes_one_amount:
  fixes miners :: "('a::{linorder,zero,plus,minus,times,inverse}) miner list"
  assumes "first_pass round8 total_amount (py_sum (map avg_participation_percentage miners))
             miners [] 0 = Inr (rs, run)"
    and "rs \<noteq> []"
    and "round8 (total_amount - run) \<noteq> 0"
  shows "\<exists>i rs'. generate_distribution round8 miners total_amount token =
               Inr [\<lparr>token_name = token, recipients = rs'\<rparr>] \<and>
             i < length rs \<and> (\<forall>j<length rs. amount (rs ! j) \<le> amount (rs ! i)) \<and>
             length rs' = length rs \<and>
             map address rs' = map address rs \<and>
             (\<forall>j<length rs. j \<noteq> i \<longrightarrow> rs' ! j = rs ! j)"
proof -
  from adjust_fires[where rs = rs and ?round8.0 = round8 and total_amount = total_amount and run = run,
      OF assms(2,3)] obtain i where
    i: "i < length rs" "\<forall>j<length rs. amount (rs ! j) \<le> amount (rs ! i)"
    and a: "adjust round8 total_amount rs run =
       Inr (rs[i := (rs ! i)\<lparr>amount := round8 (amount (rs ! i) + round8 (total_amount - run))\<rparr>])"
    by blast
  let ?rs' = "rs[i := (rs ! i)\<lparr>amount := round8 (amount (rs ! i) + round8 (total_amount - run))\<rparr>]"
  have "map address ?rs' = map address rs"
    using i(1) by (simp add: map_update list_update_same_conv)
  moreover have "\<forall>j<length rs. j \<noteq> i \<longrightarrow> ?rs' ! j = rs ! j" by simp
  moreover have "length ?rs' = length rs" by simp
  ultimately show ?thesis
    using generate_distribution_unfold[OF assms(1) a] i by blast
qed

text \<open>
  Three miners with equal weights share 2: each gets 0.66666667 in the first pass, and
  the first of them 0.00000001 less in the end.
\<close>

theorem correction_changes_one_amount_witness:
  "first_pass exact_round8 2
     (py_sum (map avg_participation_percentage
        [participant ''9hA'' 1, participant ''9hB'' 1, participant ''9hC'' 1]))
     [participant ''9hA'' 1, participant ''9hB'' 1, participant ''9hC'' 1] [] 0 =
     Inr ([\<lparr>address = ''9hA'', amount = 66666667 / 100000000\<rparr>,
           \<lparr>address = ''9hB'', amount = 66666667 / 100000000\<rparr>,
           \<lparr>address = ''9hC'', amount = 66666667 / 100000000\<rparr>], 200000001 / 100000000) \<and>
   exact_round8 (2 - 200000001 / 100000000) = - 1 / 100000000 \<and>
   generate_distribution exact_round8
     [participant ''9hA'' 1, participant ''9hB'' 1, participant ''9hC'' 1] 2 ''ergo'' =
     Inr [\<lparr>token_name = ''ergo'',
           recipients = [\<lparr>address = ''9hA'', amount = 66666666 / 100000000\<rparr>,
                         \<lparr>address = ''9hB'', amount = 66666667 / 100000000\<rparr>,
                         \<lparr>address = ''9hC'', amount = 66666667 / 100000000\<rparr>]\<rparr>]"
proof -
  let ?ms = "[participant ''9hA'' 1, participant ''9hB'' 1, participant ''9hC'' 1]"
  let ?rs = "[\<lparr>address = ''9hA'', amount = 66666667 / 100000000 :: rat\<rparr>,
           \<lparr>address = ''9hB'', amount = 66666667 / 100000000\<rparr>,
           \<lparr>address = ''9hC'', amount = 66666667 / 100000000\<rparr>]"
  have fp: "first_pass exact_round8 2 (py_sum (map avg_participation_percentage ?ms)) ?ms [] 0 =
              Inr (?rs, 200000001 / 100000000)"
    by code_simp
  have ne: "?rs \<noteq> []" by simp
  have d: "exact_round8 (2 - 200000001 / 100000000) = - 1 / 100000000" by code_simp
  then have d0: "exact_round8 (2 - 200000001 / 100000000) \<noteq> 0" by simp
  have g: "generate_distribution exact_round8 ?ms 2 ''ergo'' =
     Inr [\<lparr>token_name = ''ergo'',
           recipients = [\<lparr>address = ''9hA'', amount = 66666666 / 100000000\<rparr>,
                         \<lparr>address = ''9hB'', amount = 66666667 / 100000000\<rparr>,
                         \<lparr>address = ''9hC'', amount = 66666667 / 100000000\<rparr>]\<rparr>]"
    by code_simp
  from correction_changes_one_amount[OF fp ne d0, of "''ergo''"] fp d g
  show ?thesis by simp
qed

end
